theory Spec2Isabelle
  imports Main
begin

section \<open>Resources, outcomes and the broker's side\<close>

text \<open>
  The program is \<^verbatim>\<open>faststream/rabbit/broker/connection.py\<close>: the class
  \<^verbatim>\<open>ConnectionManager\<close>, which holds a pool of broker connections, a pool of
  channels minted over them, and a dictionary of per-queue channels.

  Connections and channels are objects compared by identity; the model names each by the
  number of the primitive call that created it, so two resources are the same object
  exactly when their numbers are equal.
\<close>

type_synonym connection = nat
type_synonym channel = nat

text \<open>
  An exception is a value. \<open>PoolClosed\<close> is the condition a closed pool raises;
  \<open>External e\<close> is whatever a collaborator primitive (connect, open a channel, close a
  channel) raised, with its payload \<open>e\<close> kept as it was raised.
\<close>

datatype error = PoolClosed | External nat

text \<open>
  Every operation is awaited by one logical task. It returns a value, raises, or never
  resumes: a pool at capacity with nothing idle parks the caller, and in a run with a
  single task nobody releases. \<open>Blocks\<close> is that third outcome; no code after it runs,
  not even the exit of an enclosing \<^verbatim>\<open>async with\<close>.
\<close>

datatype 'a outcome = Returns 'a | Raises error | Blocks

datatype pool_id = ConnectionPool | ChannelPool

text \<open>
  The calls that leave the manager towards its collaborators, in the order they are made.
  A primitive call records the exception it raised, if any.
\<close>

datatype event =
    ConnectRobust "nat option"
  | OpenChannel connection "nat option"
  | ChannelClose channel "nat option"
  | PoolClose pool_id

text \<open>
  Modelled from the spec: the class \<^verbatim>\<open>Pool\<close> comes from the library
  \<^verbatim>\<open>aio_pika.pool\<close>, which is not part of the sources. The record follows the
  spec's data model of a bounded pool: an optional capacity, the live resources the pool
  has created, the idle resources available for the next borrow (first in, first out),
  and a closed flag.
\<close>

record pool =
  max_size :: "int option"
  item_set :: "nat list"
  items :: "nat list"
  is_closed :: bool

text \<open>
  What the collaborators do is a parameter: whether the \<open>k\<close>-th call of the connect
  primitive raises, whether the \<open>k\<close>-th call that opens a channel raises, and whether
  closing a given channel raises (\<open>None\<close>: the call succeeds).
\<close>

record env =
  connect_fails :: "nat \<Rightarrow> nat option"
  channel_fails :: "nat \<Rightarrow> nat option"
  close_fails :: "channel \<Rightarrow> nat option"

text \<open>
  The state: the three fields of \<^verbatim>\<open>ConnectionManager\<close> (lines 30 to 48), and the
  broker's side of the world: which connections and channels are closed
  (\<^verbatim>\<open>is_closed\<close> of each), how often each creating primitive was called, and
  the trace of calls. The dictionary \<^verbatim>\<open>_queue_channels\<close> is an association list
  in insertion order, the order in which Python iterates it.
\<close>

record world =
  connection_pool :: pool
  channel_pool :: pool
  queue_channels :: "(string \<times> channel) list"
  closed_connections :: "connection set"
  closed_channels :: "channel set"
  connect_calls :: nat
  channel_calls :: nat
  trace :: "event list"

type_synonym 'a action = "world \<Rightarrow> 'a outcome \<times> world"

definition new_pool :: "int option \<Rightarrow> pool" where
  "new_pool capacity = \<lparr>max_size = capacity, item_set = [], items = [], is_closed = False\<rparr>"

text \<open>\<^verbatim>\<open>ConnectionManager.__init__\<close>: two empty pools and an empty dictionary.\<close>

definition init :: "int option \<Rightarrow> int option \<Rightarrow> world" where
  "init connection_pool_size channel_pool_size =
     \<lparr>connection_pool = new_pool connection_pool_size,
      channel_pool = new_pool channel_pool_size,
      queue_channels = [],
      closed_connections = {},
      closed_channels = {},
      connect_calls = 0,
      channel_calls = 0,
      trace = []\<rparr>"

section \<open>The collaborators' primitives\<close>

text \<open>
  \<^verbatim>\<open>connect_robust(url, timeout, ssl_context)\<close>, the factory of the connection
  pool (lines 31 to 35): one call of the primitive, which returns a new connection or
  raises.
\<close>

definition connect_robust :: "env \<Rightarrow> connection action" where
  "connect_robust env w =
     (let k = connect_calls w;
          r = connect_fails env k;
          w1 = w\<lparr>connect_calls := k + 1, trace := trace w @ [ConnectRobust r]\<rparr>
      in case r of
           None \<Rightarrow> (Returns k, w1)
         | Some e \<Rightarrow> (Raises (External e), w1))"

text \<open>\<^verbatim>\<open>connection.channel(...)\<close> (lines 81 to 85).\<close>

definition connection_channel :: "env \<Rightarrow> connection \<Rightarrow> channel action" where
  "connection_channel env c w =
     (let k = channel_calls w;
          r = channel_fails env k;
          w1 = w\<lparr>channel_calls := k + 1, trace := trace w @ [OpenChannel c r]\<rparr>
      in case r of
           None \<Rightarrow> (Returns k, w1)
         | Some e \<Rightarrow> (Raises (External e), w1))"

text \<open>
  \<^verbatim>\<open>channel.close()\<close> (line 93): the channel is closed when the call returns, and
  is left as it was when the call raises.
\<close>

definition channel_close :: "env \<Rightarrow> channel \<Rightarrow> unit action" where
  "channel_close env c w =
     (let r = close_fails env c;
          w1 = w\<lparr>trace := trace w @ [ChannelClose c r]\<rparr>
      in case r of
           None \<Rightarrow> (Returns (), w1\<lparr>closed_channels := insert c (closed_channels w1)\<rparr>)
         | Some e \<Rightarrow> (Raises (External e), w1))"

section \<open>The pool\<close>

fun the_pool :: "pool_id \<Rightarrow> world \<Rightarrow> pool" where
  "the_pool ConnectionPool w = connection_pool w"
| "the_pool ChannelPool w = channel_pool w"

fun map_pool :: "pool_id \<Rightarrow> (pool \<Rightarrow> pool) \<Rightarrow> world \<Rightarrow> world" where
  "map_pool ConnectionPool f w = w\<lparr>connection_pool := f (connection_pool w)\<rparr>"
| "map_pool ChannelPool f w = w\<lparr>channel_pool := f (channel_pool w)\<rparr>"

text \<open>
  Modelled from the spec: a new resource is created only while the live set is below the
  capacity, or when no capacity is set.
\<close>

definition at_capacity :: "pool \<Rightarrow> bool" where
  "at_capacity p =
     (case max_size p of None \<Rightarrow> False | Some m \<Rightarrow> m \<le> int (length (item_set p)))"

text \<open>
  Modelled from the spec: the unscoped borrow of \<^verbatim>\<open>aio_pika.pool.Pool\<close>
  (\<^verbatim>\<open>Pool._get\<close>, called at lines 51, 59 and 65). A closed pool raises; an idle
  resource is handed out before a new one is created; a pool at capacity with nothing
  idle parks the caller; otherwise the factory runs, its failure propagates, and its
  result joins the live set. The factory is the one given to the pool at construction
  (lines 30 to 46), passed here as an argument.
\<close>

definition pool_get :: "pool_id \<Rightarrow> nat action \<Rightarrow> nat action" where
  "pool_get k factory w =
     (let p = the_pool k w in
      if is_closed p then (Raises PoolClosed, w)
      else case items p of
             x # xs \<Rightarrow> (Returns x, map_pool k (\<lambda>p. p\<lparr>items := xs\<rparr>) w)
           | [] \<Rightarrow>
               if at_capacity p then (Blocks, w)
               else case factory w of
                      (Returns x, w1) \<Rightarrow>
                        (Returns x, map_pool k (\<lambda>p. p\<lparr>item_set := item_set p @ [x]\<rparr>) w1)
                    | (Raises e, w1) \<Rightarrow> (Raises e, w1)
                    | (Blocks, w1) \<Rightarrow> (Blocks, w1))"

text \<open>
  Modelled from the spec: the release of a borrowed resource into the available set. The
  spec does not say what a release into a closed pool does; here it raises the pool-closed
  condition and leaves the pool as it is.
\<close>

definition pool_put :: "pool_id \<Rightarrow> nat \<Rightarrow> unit action" where
  "pool_put k x w =
     (if is_closed (the_pool k w) then (Raises PoolClosed, w)
      else (Returns (), map_pool k (\<lambda>p. p\<lparr>items := items p @ [x]\<rparr>) w))"

text \<open>
  The end of a scope: a body that returned or raised releases the resource and keeps its
  own outcome, unless the release itself raises; a body that never resumes releases
  nothing.
\<close>

definition pool_release :: "pool_id \<Rightarrow> nat \<Rightarrow> 'a outcome \<times> world \<Rightarrow> 'a outcome \<times> world" where
  "pool_release k x rw =
     (case rw of
        (Blocks, w) \<Rightarrow> (Blocks, w)
      | (r, w) \<Rightarrow>
          (case pool_put k x w of
             (Raises e, w1) \<Rightarrow> (Raises e, w1)
           | (_, w1) \<Rightarrow> (r, w1)))"

text \<open>
  Modelled from the spec: the scoped borrow (\<^verbatim>\<open>async with pool.acquire() as x\<close>,
  lines 55 and 69): borrow, run the body with the resource, release on every exit path.
\<close>

definition pool_acquire :: "pool_id \<Rightarrow> nat action \<Rightarrow> (nat \<Rightarrow> 'a action) \<Rightarrow> 'a action" where
  "pool_acquire k factory body w =
     (if is_closed (the_pool k w) then (Raises PoolClosed, w)
      else case pool_get k factory w of
             (Returns x, w1) \<Rightarrow> pool_release k x (body x w1)
           | (Raises e, w1) \<Rightarrow> (Raises e, w1)
           | (Blocks, w1) \<Rightarrow> (Blocks, w1))"

text \<open>
  Modelled from the spec: closing a pool marks it closed and destroys its live resources;
  on a closed pool it does nothing. It never raises. Only the call is traced: what the
  pool does to its resources is the pool's own business.
\<close>

fun destroy :: "pool_id \<Rightarrow> nat list \<Rightarrow> world \<Rightarrow> world" where
  "destroy ConnectionPool xs w = w\<lparr>closed_connections := closed_connections w \<union> set xs\<rparr>"
| "destroy ChannelPool xs w = w\<lparr>closed_channels := closed_channels w \<union> set xs\<rparr>"

definition pool_close :: "pool_id \<Rightarrow> unit action" where
  "pool_close k w =
     (let w1 = w\<lparr>trace := trace w @ [PoolClose k]\<rparr> in
      if is_closed (the_pool k w1) then (Returns (), w1)
      else (Returns (),
            destroy k (item_set (the_pool k w1)) (map_pool k (\<lambda>p. p\<lparr>is_closed := True\<rparr>) w1)))"

section \<open>ConnectionManager\<close>

text \<open>\<^verbatim>\<open>get_connection\<close> (lines 50 and 51).\<close>

definition get_connection :: "env \<Rightarrow> connection action" where
  "get_connection env = pool_get ConnectionPool (connect_robust env)"

text \<open>\<^verbatim>\<open>acquire_connection\<close> (lines 53 to 56): the pool's scoped borrow.\<close>

definition acquire_connection :: "env \<Rightarrow> (connection \<Rightarrow> 'a action) \<Rightarrow> 'a action" where
  "acquire_connection env body = pool_acquire ConnectionPool (connect_robust env) body"

text \<open>
  \<^verbatim>\<open>_get_channel\<close> (lines 72 to 88), the factory of the channel pool: inside a
  scoped borrow of a connection, open a channel on it and return the channel.
\<close>

definition private_get_channel :: "env \<Rightarrow> channel action" where
  "private_get_channel env = acquire_connection env (connection_channel env)"

text \<open>\<^verbatim>\<open>get_channel\<close> (lines 58 and 59).\<close>

definition get_channel :: "env \<Rightarrow> channel action" where
  "get_channel env = pool_get ChannelPool (private_get_channel env)"

text \<open>
  \<^verbatim>\<open>acquire_channel\<close> (lines 61 to 70), a context manager: the body is what the
  caller runs at the \<^verbatim>\<open>yield\<close>. With a queue name, a name not yet in the
  dictionary gets a channel from the unscoped borrow, stored at the end of the
  dictionary; the body then runs with the dictionary's channel and nothing follows it
  (line 67 is the last statement of that branch). Without a queue name the body runs
  inside the channel pool's scoped borrow.
\<close>

definition acquire_channel :: "env \<Rightarrow> string option \<Rightarrow> (channel \<Rightarrow> 'a action) \<Rightarrow> 'a action" where
  "acquire_channel env queue_name body w =
     (case queue_name of
        Some q \<Rightarrow>
          (case map_of (queue_channels w) q of
             None \<Rightarrow>
               (case pool_get ChannelPool (private_get_channel env) w of
                  (Returns c, w1) \<Rightarrow> body c (w1\<lparr>queue_channels := queue_channels w1 @ [(q, c)]\<rparr>)
                | (Raises e, w1) \<Rightarrow> (Raises e, w1)
                | (Blocks, w1) \<Rightarrow> (Blocks, w1))
           | Some c \<Rightarrow> body c w)
      | None \<Rightarrow> pool_acquire ChannelPool (private_get_channel env) body w)"

text \<open>
  The loop of \<^verbatim>\<open>close\<close> (lines 91 to 93) over the dictionary's values: a channel
  that is not closed is closed; the first call that raises ends the loop.
\<close>

fun close_channels :: "env \<Rightarrow> channel list \<Rightarrow> unit action" where
  "close_channels env [] w = (Returns (), w)"
| "close_channels env (c # cs) w =
     (if c \<notin> closed_channels w then
        (case channel_close env c w of
           (Returns _, w1) \<Rightarrow> close_channels env cs w1
         | (Raises e, w1) \<Rightarrow> (Raises e, w1)
         | (Blocks, w1) \<Rightarrow> (Blocks, w1))
      else close_channels env cs w)"

text \<open>The two guarded pool closes of \<^verbatim>\<open>close\<close> (lines 95 to 99).\<close>

definition close_pool_if_open :: "pool_id \<Rightarrow> unit action" where
  "close_pool_if_open k w =
     (if \<not> is_closed (the_pool k w) then pool_close k w else (Returns (), w))"

text \<open>\<^verbatim>\<open>close\<close> (lines 90 to 99).\<close>

definition close :: "env \<Rightarrow> unit action" where
  "close env w =
     (case close_channels env (map snd (queue_channels w)) w of
        (Returns _, w1) \<Rightarrow>
          (case close_pool_if_open ChannelPool w1 of
             (Returns _, w2) \<Rightarrow> close_pool_if_open ConnectionPool w2
           | (Raises e, w2) \<Rightarrow> (Raises e, w2)
           | (Blocks, w2) \<Rightarrow> (Blocks, w2))
      | (Raises e, w1) \<Rightarrow> (Raises e, w1)
      | (Blocks, w1) \<Rightarrow> (Blocks, w1))"

section \<open>Clients\<close>

text \<open>
  A client of the manager is a sequence of calls of its five public operations; the two
  context managers carry the client's code that runs inside the scope, which may itself
  call the manager or raise an exception of its own. A sequence stops at the first
  operation that does not return.
\<close>

datatype op =
    GetConnection
  | AcquireConnection "op list"
  | GetChannel
  | AcquireChannel "string option" "op list"
  | Close
  | ClientRaise nat

definition discard :: "'a outcome \<times> world \<Rightarrow> unit outcome \<times> world" where
  "discard rw =
     (case rw of
        (Returns _, w) \<Rightarrow> (Returns (), w)
      | (Raises e, w) \<Rightarrow> (Raises e, w)
      | (Blocks, w) \<Rightarrow> (Blocks, w))"

fun exec :: "env \<Rightarrow> op \<Rightarrow> unit action"
  and exec_all :: "env \<Rightarrow> op list \<Rightarrow> unit action" where
  "exec env GetConnection w = discard (get_connection env w)"
| "exec env (AcquireConnection body) w = acquire_connection env (\<lambda>_. exec_all env body) w"
| "exec env GetChannel w = discard (get_channel env w)"
| "exec env (AcquireChannel queue_name body) w =
     acquire_channel env queue_name (\<lambda>_. exec_all env body) w"
| "exec env Close w = close env w"
| "exec env (ClientRaise e) w = (Raises (External e), w)"
| "exec_all env [] w = (Returns (), w)"
| "exec_all env (x # xs) w =
     (case exec env x w of
        (Returns _, w1) \<Rightarrow> exec_all env xs w1
      | (Raises e, w1) \<Rightarrow> (Raises e, w1)
      | (Blocks, w1) \<Rightarrow> (Blocks, w1))"

section \<open>What the claims observe\<close>

text \<open>
  The calls \<^verbatim>\<open>channel.close()\<close> on the channels \<open>cs\<close>, in order, each with the
  result the collaborator gives it.
\<close>

definition close_calls :: "env \<Rightarrow> channel list \<Rightarrow> event list" where
  "close_calls env cs = map (\<lambda>c. ChannelClose c (close_fails env c)) cs"

text \<open>The pool closes that \<^verbatim>\<open>close\<close> issues from a state: one for each pool still open.\<close>

definition pool_calls :: "world \<Rightarrow> event list" where
  "pool_calls w =
     (if is_closed (channel_pool w) then [] else [PoolClose ChannelPool]) @
     (if is_closed (connection_pool w) then [] else [PoolClose ConnectionPool])"

text \<open>The state after the two guarded pool closes of \<^verbatim>\<open>close\<close> (lines 95 to 99).\<close>

definition close_pools :: "world \<Rightarrow> world" where
  "close_pools w = snd (close_pool_if_open ConnectionPool (snd (close_pool_if_open ChannelPool w)))"

text \<open>
  The occupancy of a pool: the resources out on loan, that is the live ones that are not
  idle. An integer, so that the difference is not truncated.
\<close>

definition in_use :: "pool \<Rightarrow> int" where
  "in_use p = int (length (item_set p)) - int (length (items p))"

text \<open>The caller's code that hands back the resource it was given and does nothing else.\<close>

definition yield :: "nat \<Rightarrow> nat action" where
  "yield c w = (Returns c, w)"

subsection \<open>Concrete runs\<close>

text \<open>Collaborators that never fail.\<close>

definition quiet_env :: env where
  "quiet_env =
     \<lparr>connect_fails = (\<lambda>_. None), channel_fails = (\<lambda>_. None), close_fails = (\<lambda>_. None)\<rparr>"

text \<open>
  The manager with unbounded pools after \<^verbatim>\<open>acquire_channel("q1")\<close> and
  \<^verbatim>\<open>acquire_channel("q2")\<close>, and the same manager after \<^verbatim>\<open>close()\<close>.
\<close>

definition two_queues :: world where
  "two_queues =
     \<lparr>connection_pool = \<lparr>max_size = None, item_set = [0], items = [0], is_closed = False\<rparr>,
      channel_pool = \<lparr>max_size = None, item_set = [0, 1], items = [], is_closed = False\<rparr>,
      queue_channels = [(''q1'', 0), (''q2'', 1)],
      closed_connections = {},
      closed_channels = {},
      connect_calls = 1,
      channel_calls = 2,
      trace = [ConnectRobust None, OpenChannel 0 None, OpenChannel 0 None]\<rparr>"

definition two_queues_closed :: world where
  "two_queues_closed =
     \<lparr>connection_pool = \<lparr>max_size = None, item_set = [0], items = [0], is_closed = True\<rparr>,
      channel_pool = \<lparr>max_size = None, item_set = [0, 1], items = [], is_closed = True\<rparr>,
      queue_channels = [(''q1'', 0), (''q2'', 1)],
      closed_connections = {0},
      closed_channels = {0, 1},
      connect_calls = 1,
      channel_calls = 2,
      trace = [ConnectRobust None, OpenChannel 0 None, OpenChannel 0 None,
               ChannelClose 0 None, ChannelClose 1 None,
               PoolClose ChannelPool, PoolClose ConnectionPool]\<rparr>"

text \<open>Collaborators where closing channel 0 raises.\<close>

definition stubborn_env :: env where
  "stubborn_env =
     \<lparr>connect_fails = (\<lambda>_. None), channel_fails = (\<lambda>_. None),
      close_fails = (\<lambda>c. if c = 0 then Some 7 else None)\<rparr>"

section \<open>Closing\<close>

lemmas pool_defs = pool_get_def pool_put_def pool_release_def pool_acquire_def at_capacity_def
lemmas primitive_defs = connect_robust_def connection_channel_def
lemmas manager_defs = get_connection_def acquire_connection_def private_get_channel_def
  get_channel_def acquire_channel_def close_def close_pool_if_open_def pool_close_def
  channel_close_def discard_def

lemma channel_close_cases:
  "channel_close env c w =
     (case close_fails env c of
        None \<Rightarrow> (Returns (), w\<lparr>trace := trace w @ [ChannelClose c None],
                                closed_channels := insert c (closed_channels w)\<rparr>)
      | Some e \<Rightarrow> (Raises (External e), w\<lparr>trace := trace w @ [ChannelClose c (Some e)]\<rparr>))"
  by (simp add: channel_close_def Let_def split: option.splits)

lemma close_channels_step:
  "c \<notin> closed_channels w \<Longrightarrow> close_fails env c = None \<Longrightarrow>
   close_channels env (c # cs) w =
     close_channels env cs (w\<lparr>trace := trace w @ [ChannelClose c None],
                              closed_channels := insert c (closed_channels w)\<rparr>)"
  by (simp add: channel_close_cases)

lemma close_channels_skip:
  "c \<in> closed_channels w \<Longrightarrow> close_channels env (c # cs) w = close_channels env cs w"
  by simp

lemma close_channels_raise:
  "c \<notin> closed_channels w \<Longrightarrow> close_fails env c = Some e \<Longrightarrow>
   close_channels env (c # cs) w =
     (Raises (External e), w\<lparr>trace := trace w @ [ChannelClose c (Some e)]\<rparr>)"
  by (simp add: channel_close_cases)

lemma close_channels_frame:
  "close_channels env cs w = (r, w') \<Longrightarrow>
     connection_pool w' = connection_pool w \<and> channel_pool w' = channel_pool w \<and>
     queue_channels w' = queue_channels w \<and> closed_connections w' = closed_connections w \<and>
     connect_calls w' = connect_calls w \<and> channel_calls w' = channel_calls w"
proof (induction cs arbitrary: w)
  case Nil
  then show ?case by auto
next
  case (Cons c cs)
  show ?case
  proof (cases "c \<in> closed_channels w")
    case True
    from Cons.prems have "close_channels env cs w = (r, w')"
      by (simp only: close_channels_skip [OF True])
    from Cons.IH [OF this] show ?thesis .
  next
    case False
    show ?thesis
    proof (cases "close_fails env c")
      case None
      from Cons.prems have "close_channels env cs (w\<lparr>trace := trace w @ [ChannelClose c None],
                                closed_channels := insert c (closed_channels w)\<rparr>) = (r, w')"
        by (simp only: close_channels_step [OF False None])
      from Cons.IH [OF this] show ?thesis by simp
    next
      case (Some e)
      from Cons.prems [unfolded close_channels_raise [OF False Some]]
      have "w' = w\<lparr>trace := trace w @ [ChannelClose c (Some e)]\<rparr>" by simp
      then show ?thesis by simp
    qed
  qed
qed

lemma close_channels_closed:
  "close_channels env cs w = (Returns u, w') \<Longrightarrow> closed_channels w' = closed_channels w \<union> set cs"
proof (induction cs arbitrary: w)
  case Nil
  then show ?case by simp
next
  case (Cons c cs)
  show ?case
  proof (cases "c \<in> closed_channels w")
    case True
    from Cons.prems have "close_channels env cs w = (Returns u, w')"
      by (simp only: close_channels_skip [OF True])
    from Cons.IH [OF this] True show ?thesis by auto
  next
    case False
    show ?thesis
    proof (cases "close_fails env c")
      case None
      from Cons.prems have "close_channels env cs (w\<lparr>trace := trace w @ [ChannelClose c None],
                              closed_channels := insert c (closed_channels w)\<rparr>) = (Returns u, w')"
        by (simp only: close_channels_step [OF False None])
      from Cons.IH [OF this] show ?thesis by simp
    next
      case (Some e)
      from Cons.prems [unfolded close_channels_raise [OF False Some]] show ?thesis by simp
    qed
  qed
qed

lemma close_channels_trace:
  "close_channels env cs w = (Returns u, w') \<Longrightarrow>
     \<exists>xs. trace w' = trace w @ close_calls env xs \<and> set xs = set cs - closed_channels w \<and>
           (\<forall>x\<in>set xs. close_fails env x = None)"
proof (induction cs arbitrary: w)
  case Nil
  then have "trace w' = trace w @ close_calls env []" by (simp add: close_calls_def)
  then show ?case by fastforce
next
  case (Cons c cs)
  show ?case
  proof (cases "c \<in> closed_channels w")
    case True
    from Cons.prems have "close_channels env cs w = (Returns u, w')"
      by (simp only: close_channels_skip [OF True])
    from Cons.IH [OF this] obtain xs where
      xs: "trace w' = trace w @ close_calls env xs" "set xs = set cs - closed_channels w"
          "\<forall>x\<in>set xs. close_fails env x = None" by blast
    from xs(2) True have "set xs = set (c # cs) - closed_channels w" by auto
    with xs(1,3) show ?thesis by blast
  next
    case False
    show ?thesis
    proof (cases "close_fails env c")
      case None
      let ?w1 = "w\<lparr>trace := trace w @ [ChannelClose c None],
                                closed_channels := insert c (closed_channels w)\<rparr>"
      from Cons.prems have "close_channels env cs ?w1 = (Returns u, w')"
        by (simp only: close_channels_step [OF False None])
      from Cons.IH [OF this] obtain xs where
        t: "trace w' = trace ?w1 @ close_calls env xs"
        and s: "set xs = set cs - closed_channels ?w1"
        and f: "\<forall>x\<in>set xs. close_fails env x = None" by blast
      have "trace w' = trace w @ close_calls env (c # xs)"
        using t None by (simp add: close_calls_def)
      moreover have "set (c # xs) = set (c # cs) - closed_channels w"
        using s False by auto
      moreover have "\<forall>x\<in>set (c # xs). close_fails env x = None" using f None by simp
      ultimately show ?thesis by blast
    next
      case (Some e)
      from Cons.prems [unfolded close_channels_raise [OF False Some]] show ?thesis by simp
    qed
  qed
qed


declare close_channels.simps [simp del]

lemma close_channels_Nil: "close_channels env [] w = (Returns (), w)"
  by (simp add: close_channels.simps)

lemma close_channels_not_Blocks: "close_channels env cs w \<noteq> (Blocks, w')"
proof (induction cs arbitrary: w)
  case Nil
  then show ?case by (simp add: close_channels_Nil)
next
  case (Cons c cs)
  show ?case
  proof (cases "c \<in> closed_channels w")
    case True
    then show ?thesis using Cons.IH by (simp only: close_channels_skip) simp
  next
    case False
    show ?thesis
    proof (cases "close_fails env c")
      case None
      show ?thesis using Cons.IH by (simp only: close_channels_step [OF False None]) simp
    next
      case (Some e)
      show ?thesis by (simp add: close_channels_raise [OF False Some])
    qed
  qed
qed

lemma close_channels_all_closed:
  "set cs \<subseteq> closed_channels w \<Longrightarrow> close_channels env cs w = (Returns (), w)"
  by (induction cs) (simp_all add: close_channels_Nil close_channels_skip)

lemma close_pool_if_open_closed:
  "is_closed (the_pool k w) \<Longrightarrow> close_pool_if_open k w = (Returns (), w)"
  by (simp add: close_pool_if_open_def)

lemma close_pool_if_open_open:
  "\<not> is_closed (the_pool k w) \<Longrightarrow>
   close_pool_if_open k w = (Returns (), destroy k (item_set (the_pool k w))
      (map_pool k (\<lambda>p. p\<lparr>is_closed := True\<rparr>) (w\<lparr>trace := trace w @ [PoolClose k]\<rparr>)))"
  by (cases k) (simp_all add: close_pool_if_open_def pool_close_def Let_def)

lemma close_pool_if_open_Returns: "fst (close_pool_if_open k w) = Returns ()"
  by (cases "is_closed (the_pool k w)") (simp_all add: close_pool_if_open_closed close_pool_if_open_open)

lemma close_after_loop:
  "close_channels env (map snd (queue_channels w)) w = (Returns u, w1) \<Longrightarrow>
   close env w = (Returns (), close_pools w1)"
proof -
  assume a: "close_channels env (map snd (queue_channels w)) w = (Returns u, w1)"
  obtain w2 where 2: "close_pool_if_open ChannelPool w1 = (Returns (), w2)"
    using close_pool_if_open_Returns [of ChannelPool w1]
    by (cases "close_pool_if_open ChannelPool w1") simp
  obtain w3 where 3: "close_pool_if_open ConnectionPool w2 = (Returns (), w3)"
    using close_pool_if_open_Returns [of ConnectionPool w2]
    by (cases "close_pool_if_open ConnectionPool w2") simp
  show ?thesis by (simp add: close_def a 2 3 close_pools_def)
qed

lemma close_loop_raises:
  "close_channels env (map snd (queue_channels w)) w = (Raises e, w1) \<Longrightarrow>
   close env w = (Raises e, w1)"
  by (simp add: close_def)

lemma close_Returns:
  assumes "close env w = (Returns u, w')"
  shows "\<exists>w1. close_channels env (map snd (queue_channels w)) w = (Returns (), w1) \<and>
          w' = close_pools w1"
proof -
  obtain r w1 where l: "close_channels env (map snd (queue_channels w)) w = (r, w1)"
    by (cases "close_channels env (map snd (queue_channels w)) w") simp
  show ?thesis
  proof (cases r)
    case (Returns x)
    with l close_after_loop [of env w x w1] assms show ?thesis by simp
  next
    case (Raises e)
    with l close_loop_raises [of env w e w1] assms show ?thesis by simp
  next
    case Blocks
    with l close_channels_not_Blocks show ?thesis by blast
  qed
qed

lemma close_pools_fields:
  "queue_channels (close_pools w) = queue_channels w"
  "closed_channels w \<subseteq> closed_channels (close_pools w)"
  "is_closed (channel_pool (close_pools w))"
  "is_closed (connection_pool (close_pools w))"
  "trace (close_pools w) = trace w @ pool_calls w"
  "connect_calls (close_pools w) = connect_calls w"
  "channel_calls (close_pools w) = channel_calls w"
  "items (channel_pool (close_pools w)) = items (channel_pool w)"
  by (auto simp add: close_pools_def pool_calls_def close_pool_if_open_def pool_close_def Let_def)

lemma close_pools_closed:
  "is_closed (channel_pool w) \<Longrightarrow> is_closed (connection_pool w) \<Longrightarrow> close_pools w = w"
  by (simp add: close_pools_def close_pool_if_open_closed)

text \<open>The two concrete states are what the program computes.\<close>

lemma two_queues_reached:
  "exec_all quiet_env [AcquireChannel (Some ''q1'') [], AcquireChannel (Some ''q2'') []]
     (init None None) = (Returns (), two_queues)"
  by (simp add: manager_defs pool_defs primitive_defs init_def new_pool_def quiet_env_def
      two_queues_def Let_def)

lemma close_two_queues: "close quiet_env two_queues = (Returns (), two_queues_closed)"
  by (simp add: manager_defs close_channels.simps quiet_env_def two_queues_def
      two_queues_closed_def Let_def insert_commute)


text \<open>
  Claim C1. A call of \<^verbatim>\<open>close\<close> that returns has made these calls, in this order and
  no others: \<^verbatim>\<open>channel.close()\<close> on every channel of the dictionary that was not
  yet closed, each returning normally; then the close of the channel pool if it was open;
  then the close of the connection pool if it was open. Each call is awaited before the
  next is made, so every channel of the dictionary is closed before the channel pool is,
  and the channel pool before the connection pool.
\<close>

theorem close_order:
  assumes "close env w = (Returns u, w')"
  shows "\<exists>xs. trace w' = trace w @ close_calls env xs @ pool_calls w \<and>
           set xs = snd ` set (queue_channels w) - closed_channels w \<and>
           (\<forall>x\<in>set xs. close_fails env x = None)"
proof -
  from close_Returns [OF assms] obtain w1 where
    w1: "close_channels env (map snd (queue_channels w)) w = (Returns (), w1)"
    and w': "w' = close_pools w1"
    by blast
  from close_channels_trace [OF w1] obtain xs where
    t: "trace w1 = trace w @ close_calls env xs"
    and s: "set xs = set (map snd (queue_channels w)) - closed_channels w"
    and f: "\<forall>x\<in>set xs. close_fails env x = None" by blast
  from close_channels_frame [OF w1] have "pool_calls w1 = pool_calls w"
    by (simp add: pool_calls_def)
  then have "trace w' = trace w @ close_calls env xs @ pool_calls w"
    using t by (simp add: w' close_pools_fields)
  with s f show ?thesis by auto
qed

theorem close_order_witness:
  "close quiet_env two_queues = (Returns (), two_queues_closed) \<and>
   (\<exists>xs. trace two_queues_closed = trace two_queues @ close_calls quiet_env xs @ pool_calls two_queues \<and>
         set xs = snd ` set (queue_channels two_queues) - closed_channels two_queues \<and>
         (\<forall>x\<in>set xs. close_fails quiet_env x = None))"
  using close_order [OF close_two_queues] close_two_queues by simp


text \<open>
  Claim C3. After a call of \<^verbatim>\<open>close\<close> that returned, a second call returns as
  well and leaves the state as it is, the trace included: it raises nothing and issues no
  call at all, since every channel of the dictionary and both pools are found closed.
\<close>

theorem close_twice:
  assumes "close env w = (Returns u, w')"
  shows "close env w' = (Returns (), w')"
proof -
  from close_Returns [OF assms] obtain w1 where
    w1: "close_channels env (map snd (queue_channels w)) w = (Returns (), w1)"
    and w': "w' = close_pools w1"
    by blast
  from close_channels_closed [OF w1] have c: "set (map snd (queue_channels w)) \<subseteq> closed_channels w1"
    by auto
  from close_channels_frame [OF w1] have q: "queue_channels w1 = queue_channels w" by simp
  have "set (map snd (queue_channels w')) \<subseteq> closed_channels w'"
    using c q close_pools_fields(2) [of w1] by (simp add: w' close_pools_fields(1))
  then have l: "close_channels env (map snd (queue_channels w')) w' = (Returns (), w')"
    by (rule close_channels_all_closed)
  have "close_pools w' = w'"
    unfolding w' by (rule close_pools_closed) (rule close_pools_fields)+
  with close_after_loop [OF l] show ?thesis by simp
qed

theorem close_twice_witness:
  "close quiet_env two_queues = (Returns (), two_queues_closed) \<and>
   close quiet_env two_queues_closed = (Returns (), two_queues_closed)"
  using close_twice [OF close_two_queues] close_two_queues by simp


section \<open>A close that raises\<close>

lemma close_channels_prefix_Returns:
  "\<forall>x\<in>set pre. x \<in> closed_channels w \<or> close_fails env x = None \<Longrightarrow>
   \<exists>w1. close_channels env pre w = (Returns (), w1)"
proof (induction pre arbitrary: w)
  case Nil
  then show ?case by (simp add: close_channels_Nil)
next
  case (Cons c cs)
  show ?case
  proof (cases "c \<in> closed_channels w")
    case True
    from Cons.prems have "\<forall>x\<in>set cs. x \<in> closed_channels w \<or> close_fails env x = None" by simp
    from Cons.IH [OF this] show ?thesis by (simp only: close_channels_skip [OF True])
  next
    case False
    with Cons.prems have n: "close_fails env c = None" by simp
    let ?w1 = "w\<lparr>trace := trace w @ [ChannelClose c None],
                 closed_channels := insert c (closed_channels w)\<rparr>"
    from Cons.prems have "\<forall>x\<in>set cs. x \<in> closed_channels ?w1 \<or> close_fails env x = None" by simp
    from Cons.IH [OF this] show ?thesis by (simp only: close_channels_step [OF False n])
  qed
qed

lemma close_channels_append:
  "close_channels env xs w = (Returns u, w1) \<Longrightarrow>
   close_channels env (xs @ ys) w = close_channels env ys w1"
proof (induction xs arbitrary: w)
  case Nil
  then show ?case by (simp add: close_channels_Nil)
next
  case (Cons c cs)
  show ?case
  proof (cases "c \<in> closed_channels w")
    case True
    from Cons.prems have "close_channels env cs w = (Returns u, w1)"
      by (simp only: close_channels_skip [OF True])
    from Cons.IH [OF this] show ?thesis
      by (simp only: append_Cons close_channels_skip [OF True])
  next
    case False
    show ?thesis
    proof (cases "close_fails env c")
      case None
      from Cons.prems have "close_channels env cs (w\<lparr>trace := trace w @ [ChannelClose c None],
                 closed_channels := insert c (closed_channels w)\<rparr>) = (Returns u, w1)"
        by (simp only: close_channels_step [OF False None])
      from Cons.IH [OF this] show ?thesis
        by (simp only: append_Cons close_channels_step [OF False None])
    next
      case (Some e)
      from Cons.prems [unfolded close_channels_raise [OF False Some]] show ?thesis by simp
    qed
  qed
qed

text \<open>
  Claim C10. \<^verbatim>\<open>close\<close> is not atomic. When the dictionary's channels are, in
  order, \<open>pre\<close>, then \<open>c\<close>, then \<open>post\<close>, the channels of \<open>pre\<close> are closed
  already or close without raising, and \<open>c\<close> is open and its close raises \<open>e\<close>, then
  \<^verbatim>\<open>close\<close> raises \<open>e\<close>. Both pools are left exactly as they were (no pool close is
  called), the only channels closed by the call are those of \<open>pre\<close>, so every later
  channel that was open is still open, and the last call made is the one that raised.
\<close>

theorem close_not_atomic:
  assumes q: "map snd (queue_channels w) = pre @ c # post"
    and pre: "\<forall>x\<in>set pre. x \<in> closed_channels w \<or> close_fails env x = None"
    and c: "c \<notin> closed_channels w" "c \<notin> set pre"
    and e: "close_fails env c = Some e"
  shows "\<exists>w'. close env w = (Raises (External e), w') \<and>
           channel_pool w' = channel_pool w \<and> connection_pool w' = connection_pool w \<and>
           closed_channels w' = closed_channels w \<union> set pre \<and>
           (\<exists>xs. trace w' = trace w @ close_calls env xs @ [ChannelClose c (Some e)] \<and>
                 set xs = set pre - closed_channels w)"
proof -
  from close_channels_prefix_Returns [OF pre] obtain w1 where
    w1: "close_channels env pre w = (Returns (), w1)" by blast
  from close_channels_closed [OF w1] have cl: "closed_channels w1 = closed_channels w \<union> set pre" .
  from close_channels_trace [OF w1] obtain xs where
    xs: "trace w1 = trace w @ close_calls env xs" "set xs = set pre - closed_channels w" by blast
  from close_channels_frame [OF w1] have
    fr: "channel_pool w1 = channel_pool w" "connection_pool w1 = connection_pool w" by simp_all
  let ?w' = "w1\<lparr>trace := trace w1 @ [ChannelClose c (Some e)]\<rparr>"
  from c cl have "c \<notin> closed_channels w1" by simp
  from close_channels_raise [OF this e]
  have "close_channels env (c # post) w1 = (Raises (External e), ?w')" .
  with close_channels_append [OF w1, of "c # post"]
  have "close_channels env (map snd (queue_channels w)) w = (Raises (External e), ?w')"
    by (simp only: q)
  then have "close env w = (Raises (External e), ?w')" by (rule close_loop_raises)
  moreover have "trace ?w' = trace w @ close_calls env xs @ [ChannelClose c (Some e)]"
    using xs(1) by simp
  ultimately show ?thesis using cl fr xs(2) by auto
qed

theorem close_not_atomic_witness:
  "\<exists>w'. close stubborn_env two_queues = (Raises (External 7), w') \<and>
     channel_pool w' = channel_pool two_queues \<and> connection_pool w' = connection_pool two_queues \<and>
     closed_channels w' = {} \<and>
     trace w' = trace two_queues @ [ChannelClose 0 (Some 7)]"
proof -
  have q: "map snd (queue_channels two_queues) = [] @ 0 # [1]" by (simp add: two_queues_def)
  have e: "close_fails stubborn_env 0 = Some 7" by (simp add: stubborn_env_def)
  have c: "0 \<notin> closed_channels two_queues" by (simp add: two_queues_def)
  from close_not_atomic [OF q _ c _ e] show ?thesis
    by (auto simp: two_queues_def close_calls_def)
qed

end
